theory Spec2Isabelle
  imports Main
begin

section \<open>The heartbeat emitter of test-python/app.py\<close>

text \<open>
  The script prints two banner lines, sets \<open>count = 0\<close> and then runs
  \<open>while True\<close>: it increments \<open>count\<close>, prints one status line chosen by an
  \<open>if\<close>/\<open>elif\<close> chain on \<open>count % 8\<close>, \<open>count % 12\<close> and \<open>count % 5\<close>, and calls
  \<open>time.sleep(3)\<close>.

  The embedding makes the interaction with the environment explicit. Everything the
  script does to the outside world is an \<open>event\<close>: data written to one of the two
  standard streams, a call of \<open>random.randint\<close> together with the value it returned, and
  a call of \<open>time.sleep\<close>. The only variable of the script is \<open>count\<close>, a Python integer
  (unbounded, hence \<open>int\<close>). Text is kept as the UTF-8 bytes of the literals in the source
  file, so the non-ASCII pictographs at the head of four of the literals are three or
  four \<open>char\<close>s each.
\<close>

subsection \<open>Streams, events and state\<close>

datatype stream = Stdout | Stderr

datatype event =
    Write stream string
  | Randint int int int
  | Sleep int

record state =
  count :: int

text \<open>Whether the loop is still running or has left the \<open>while\<close> statement.\<close>

datatype control = Looping | Exited

subsection \<open>Library calls\<close>

text \<open>
  \<open>print(text, file=f)\<close> writes the text followed by the default \<open>end\<close>, a newline.
\<close>

definition newline :: char where
  "newline = CHR 0x0A"

definition print :: "stream \<Rightarrow> string \<Rightarrow> event list" where
  "print f text = [Write f (text @ [newline])]"

text \<open>\<open>time.sleep(secs)\<close> suspends the script; the request is recorded.\<close>

definition sleep :: "int \<Rightarrow> event list" where
  "sleep secs = [Sleep secs]"

text \<open>
  \<open>random.randint(a, b)\<close> belongs to the Python standard library, whose documentation
  reads: return a random integer N such that \<open>a <= N <= b\<close>. The call is not
  deterministic, so the model lists every value the call may return; a pass of the loop
  that draws a number has one outcome for each of them.
\<close>

definition randint :: "int \<Rightarrow> int \<Rightarrow> int list" where
  "randint a b = [a..b]"

text \<open>
  An f-string field \<open>{n}\<close> of an integer is \<open>str(n)\<close>: the decimal digits, most
  significant first, after a minus sign when the number is negative.
\<close>

definition digit :: "nat \<Rightarrow> char" where
  "digit d = ''0123456789'' ! d"

fun digits :: "nat \<Rightarrow> string" where
  "digits n = (if n < 10 then [digit n] else digits (n div 10) @ [digit (n mod 10)])"

declare digits.simps [simp del]

definition str :: "int \<Rightarrow> string" where
  "str n = (if n < 0 then CHR ''-'' # digits (nat (- n)) else digits (nat n))"

subsection \<open>The string literals\<close>

text \<open>Line 6: the snake pictograph U+1F40D, then the text.\<close>

definition banner_start :: string where
  "banner_start = [CHR 0xF0, CHR 0x9F, CHR 0x90, CHR 0x8D] @ '' Starting Python application...''"

text \<open>Line 7: the folder pictograph U+1F4C1, then the text.\<close>

definition banner_project :: string where
  "banner_project = [CHR 0xF0, CHR 0x9F, CHR 0x93, CHR 0x81] @ '' Project: test-python''"

text \<open>Line 14: the cross mark U+274C, then the text; \<open>CHR 0x27\<close> is the apostrophe.\<close>

definition import_error_text :: string where
  "import_error_text = [CHR 0xE2, CHR 0x9D, CHR 0x8C] @ '' ImportError: No module named ''
     @ [CHR 0x27] @ ''requests'' @ [CHR 0x27]"

text \<open>Line 16: the check mark U+2705, then the text.\<close>

definition db_success_text :: string where
  "db_success_text = [CHR 0xE2, CHR 0x9C, CHR 0x85] @ '' Database connection successful''"

text \<open>Line 18: the bar chart U+1F4CA, then the text and the number drawn.\<close>

definition batch_text :: "int \<Rightarrow> string" where
  "batch_text r = [CHR 0xF0, CHR 0x9F, CHR 0x93, CHR 0x8A] @ '' Processing data batch '' @ str r"

text \<open>Line 20.\<close>

definition heartbeat_text :: "int \<Rightarrow> string" where
  "heartbeat_text n = ''[INFO] Application running - iteration '' @ str n"

subsection \<open>The loop\<close>

text \<open>
  Lines 13 to 20, the \<open>if\<close>/\<open>elif\<close>/\<open>else\<close> chain on the value of \<open>count\<close>. Python's
  \<open>%\<close> with a positive right operand yields a result in \<open>[0, m)\<close>, as \<open>mod\<close> on \<open>int\<close>
  does. The result lists the possible event sequences of the chain: one, except in the
  third branch, which has one for each value \<open>random.randint(1, 100)\<close> may return.
\<close>

definition emit_status :: "int \<Rightarrow> event list list" where
  "emit_status n =
     (if n mod 8 = 0 then [print Stderr import_error_text]
      else if n mod 12 = 0 then [print Stdout db_success_text]
      else if n mod 5 = 0 then
        map (\<lambda>r. Randint 1 100 r # print Stdout (batch_text r)) (randint 1 100)
      else [print Stdout (heartbeat_text n)])"

text \<open>
  Lines 11 to 22, one pass of the loop: \<open>count += 1\<close>, the chain on the new value of
  \<open>count\<close>, then \<open>time.sleep(3)\<close>. Each outcome is the events of the pass and the state
  after it.
\<close>

definition loop_body :: "state \<Rightarrow> (event list \<times> state) list" where
  "loop_body s =
     (let s1 = s\<lparr>count := count s + 1\<rparr>
      in map (\<lambda>es. (es @ sleep 3, s1)) (emit_status (count s1)))"

text \<open>
  Line 10, \<open>while True:\<close>. The loop may run forever, so the model runs it for at most a
  given number of passes. An outcome is the events so far, whether the loop is still
  running when the passes are used up (\<open>Looping\<close>) or has been left (\<open>Exited\<close>), and
  the state at that point. The only way out of a \<open>while\<close> statement whose body has no
  \<open>break\<close>, \<open>return\<close> or \<open>raise\<close> is a false condition; the condition is the constant
  \<open>True\<close>.
\<close>

primrec while_True :: "nat \<Rightarrow> state \<Rightarrow> (event list \<times> control \<times> state) list" where
  "while_True 0 s = [([], Looping, s)]"
| "while_True (Suc fuel) s =
     (if True then
        concat (map (\<lambda>(es1, s1). map (\<lambda>(es2, r). (es1 @ es2, r)) (while_True fuel s1))
                    (loop_body s))
      else [([], Exited, s)])"

text \<open>
  Lines 6 to 22, the whole script: the two banner lines, \<open>count = 0\<close>, the loop.
\<close>

definition init :: state where
  "init = \<lparr>count = 0\<rparr>"

definition program :: "nat \<Rightarrow> (event list \<times> control \<times> state) list" where
  "program fuel =
     map (\<lambda>(es, r). (print Stdout banner_start @ print Stdout banner_project @ es, r))
         (while_True fuel init)"

subsection \<open>Observations on a sequence of events\<close>

text \<open>The data written, in order, with the stream each piece went to.\<close>

fun written :: "event list \<Rightarrow> (stream \<times> string) list" where
  "written [] = []"
| "written (Write f d # es) = (f, d) # written es"
| "written (e # es) = written es"

text \<open>The numbers drawn from the random generator, in order.\<close>

fun drawn :: "event list \<Rightarrow> int list" where
  "drawn [] = []"
| "drawn (Randint a b r # es) = r # drawn es"
| "drawn (e # es) = drawn es"

text \<open>
  Each piece of data written, with the number of seconds of sleep the script had
  requested before writing it, counted from \<open>t\<close>. The script is a single thread and
  \<open>time.sleep\<close> suspends it for at least the time given, so this is a lower bound of the
  time at which the data is written.
\<close>

fun stamped :: "int \<Rightarrow> event list \<Rightarrow> (int \<times> stream \<times> string) list" where
  "stamped t [] = []"
| "stamped t (Write f d # es) = (t, f, d) # stamped t es"
| "stamped t (Sleep secs # es) = stamped (t + secs) es"
| "stamped t (e # es) = stamped t es"

text \<open>The seconds of sleep requested in a sequence of events.\<close>

fun slept :: "event list \<Rightarrow> int" where
  "slept [] = 0"
| "slept (Sleep secs # es) = secs + slept es"
| "slept (e # es) = slept es"

text \<open>
  The number a text of decimal digits denotes, and the integer a text of decimal digits
  with an optional leading minus sign denotes: the reading of what \<open>str\<close> produces.
\<close>

fun decimal :: "string \<Rightarrow> nat" where
  "decimal ds = foldl (\<lambda>a c. 10 * a + (of_char c - 48)) 0 ds"

fun int_of_text :: "string \<Rightarrow> int" where
  "int_of_text [] = 0"
| "int_of_text (c # cs) = (if c = CHR ''-'' then - int (decimal cs) else int (decimal (c # cs)))"


section \<open>Auxiliary facts\<close>

subsection \<open>Library calls\<close>

lemma set_randint: "set (randint a b) = {a..b}"
  by (simp add: randint_def)

lemma digit_not_newline: "d < 10 \<Longrightarrow> digit d \<noteq> newline"
proof -
  assume "d < 10"
  then have "d \<in> {0, 1, 2, 3, 4, 5, 6, 7, 8, 9}" by auto
  then show ?thesis by (auto simp: digit_def newline_def)
qed

lemma newline_notin_digits: "newline \<notin> set (digits n)"
proof (induction n rule: digits.induct)
  case (1 n)
  show ?case
  proof (cases "n < 10")
    case True
    then show ?thesis using digit_not_newline [of n] by (simp add: digits.simps [of n])
  next
    case False
    then show ?thesis
      using 1 digit_not_newline [of "n mod 10"] by (simp add: digits.simps [of n])
  qed
qed

lemma newline_notin_str: "newline \<notin> set (str n)"
  by (simp add: str_def newline_notin_digits) (simp add: newline_def)

lemma digit_value: "d < 10 \<Longrightarrow> of_char (digit d) = 48 + d \<and> digit d \<noteq> CHR ''-''"
proof -
  assume "d < 10"
  then have "d \<in> {0, 1, 2, 3, 4, 5, 6, 7, 8, 9}" by auto
  then show ?thesis by (auto simp: digit_def)
qed

lemma decimal_digits: "decimal (digits n) = n"
proof (induction n rule: digits.induct)
  case (1 n)
  show ?case
  proof (cases "n < 10")
    case True
    then show ?thesis using digit_value [of n] by (simp add: digits.simps [of n])
  next
    case False
    then have "decimal (digits (n div 10)) = n div 10" using 1 by simp
    then show ?thesis
      using False digit_value [of "n mod 10"] by (simp add: digits.simps [of n])
  qed
qed

lemma digits_head: "\<exists>c cs. digits n = c # cs \<and> c \<noteq> CHR ''-''"
proof (induction n rule: digits.induct)
  case (1 n)
  show ?case
  proof (cases "n < 10")
    case True
    then show ?thesis using digit_value [of n] by (simp add: digits.simps [of n])
  next
    case False
    then obtain c cs where "digits (n div 10) = c # cs" "c \<noteq> CHR ''-''" using 1 by blast
    then show ?thesis using False by (simp add: digits.simps [of n])
  qed
qed

lemma int_of_text_str: "int_of_text (str n) = n"
proof (cases "n < 0")
  case True
  then show ?thesis using decimal_digits [of "nat (- n)"] by (simp add: str_def)
next
  case False
  obtain c cs where d: "digits (nat n) = c # cs" "c \<noteq> CHR ''-''"
    using digits_head by blast
  have "int_of_text (c # cs) = int (decimal (c # cs))" using d(2) by simp
  then show ?thesis using False d(1) decimal_digits [of "nat n"] by (simp add: str_def)
qed

lemma str_1: "str 1 = ''1''"
  by (simp add: str_def digits.simps [of "Suc 0"] digit_def)

lemma str_2: "str 2 = ''2''"
  by (simp add: str_def digits.simps [of 2] digit_def)

lemma str_7: "str 7 = ''7''"
  by (simp add: str_def digits.simps [of 7] digit_def)

lemma str_9: "str 9 = ''9''"
  by (simp add: str_def digits.simps [of 9] digit_def)

subsection \<open>One pass of the loop\<close>

lemma emit_status_branches:
  "emit_status n =
     (if n mod 8 = 0 then [[Write Stderr (import_error_text @ [newline])]]
      else if n mod 12 = 0 then [[Write Stdout (db_success_text @ [newline])]]
      else if n mod 5 = 0 then
        map (\<lambda>r. [Randint 1 100 r, Write Stdout (batch_text r @ [newline])]) (randint 1 100)
      else [[Write Stdout (heartbeat_text n @ [newline])]])"
  by (simp add: emit_status_def print_def)

lemma loop_body_state: "(es, s') \<in> set (loop_body s) \<Longrightarrow> s' = s\<lparr>count := count s + 1\<rparr>"
  by (auto simp: loop_body_def Let_def)

lemma loop_body_nonempty: "loop_body s \<noteq> []"
  by (simp add: loop_body_def Let_def emit_status_def randint_def upto.simps)

lemma loop_body_shape:
  assumes "(es, s') \<in> set (loop_body s)"
  shows "\<exists>pre f text. es = pre @ [Write f (text @ [newline]), Sleep 3] \<and> newline \<notin> set text
           \<and> written pre = [] \<and> slept pre = 0 \<and> stamped t pre = []
           \<and> pre @ [Write f (text @ [newline])] \<in> set (emit_status (count s + 1))"
proof -
  let ?n = "count s + 1"
  from assms obtain st where st: "st \<in> set (emit_status ?n)" and es: "es = st @ [Sleep 3]"
    by (auto simp: loop_body_def Let_def sleep_def)
  consider (a) "?n mod 8 = 0" | (b) "?n mod 8 \<noteq> 0" "?n mod 12 = 0"
    | (c) "?n mod 8 \<noteq> 0" "?n mod 12 \<noteq> 0" "?n mod 5 = 0"
    | (d) "?n mod 8 \<noteq> 0" "?n mod 12 \<noteq> 0" "?n mod 5 \<noteq> 0"
    by blast
  then have "\<exists>pre f text. st = pre @ [Write f (text @ [newline])] \<and> newline \<notin> set text
           \<and> written pre = [] \<and> slept pre = 0 \<and> stamped t pre = []"
  proof cases
    case a
    with st have "st = [] @ [Write Stderr (import_error_text @ [newline])]"
      by (simp add: emit_status_branches)
    moreover have "newline \<notin> set import_error_text"
      by (simp add: import_error_text_def newline_def)
    ultimately show ?thesis by (metis written.simps(1) slept.simps(1) stamped.simps(1))
  next
    case b
    with st have "st = [] @ [Write Stdout (db_success_text @ [newline])]"
      by (simp add: emit_status_branches)
    moreover have "newline \<notin> set db_success_text"
      by (simp add: db_success_text_def newline_def)
    ultimately show ?thesis by (metis written.simps(1) slept.simps(1) stamped.simps(1))
  next
    case c
    with st obtain r where "st = [Randint 1 100 r] @ [Write Stdout (batch_text r @ [newline])]"
      by (auto simp: emit_status_branches)
    moreover have "newline \<notin> set (batch_text r)"
      using newline_notin_str [of r] by (simp add: batch_text_def) (simp add: newline_def)
    moreover have "written [Randint 1 100 r] = []" "slept [Randint 1 100 r] = 0"
      "stamped t [Randint 1 100 r] = []"
      by simp_all
    ultimately show ?thesis by blast
  next
    case d
    with st have "st = [] @ [Write Stdout (heartbeat_text ?n @ [newline])]"
      by (simp add: emit_status_branches)
    moreover have "newline \<notin> set (heartbeat_text ?n)"
      using newline_notin_str [of ?n] by (simp add: heartbeat_text_def) (simp add: newline_def)
    ultimately show ?thesis by (metis written.simps(1) slept.simps(1) stamped.simps(1))
  qed
  with es st show ?thesis by auto
qed

lemma written_append: "written (es1 @ es2) = written es1 @ written es2"
  by (induction es1 rule: written.induct) simp_all

lemma slept_append: "slept (es1 @ es2) = slept es1 + slept es2"
  by (induction es1 rule: slept.induct) simp_all

lemma stamped_append: "stamped t (es1 @ es2) = stamped t es1 @ stamped (t + slept es1) es2"
  by (induction t es1 rule: stamped.induct) (simp_all add: add.assoc)

lemma pass_stamped:
  assumes "(es, s') \<in> set (loop_body s)"
  shows "length (stamped t es) = 1 \<and> map fst (stamped t es) = [t] \<and> slept es = 3"
proof -
  from loop_body_shape [OF assms, of t] obtain pre f line where
    p: "es = pre @ [Write f (line @ [newline]), Sleep 3]" "slept pre = 0" "stamped t pre = []"
    by blast
  have "stamped t es = stamped t pre @ stamped (t + slept pre) [Write f (line @ [newline]), Sleep 3]"
    unfolding p(1) by (rule stamped_append)
  moreover have "slept es = slept pre + slept [Write f (line @ [newline]), Sleep 3]"
    unfolding p(1) by (rule slept_append)
  ultimately show ?thesis using p(2,3) by simp
qed

lemma loop_body_0:
  "loop_body \<lparr>count = 0\<rparr> =
     [([Write Stdout (''[INFO] Application running - iteration 1'' @ [newline]), Sleep 3],
       \<lparr>count = 1\<rparr>)]"
  by (simp add: loop_body_def Let_def emit_status_branches sleep_def heartbeat_text_def str_1)

lemma loop_body_1:
  "loop_body \<lparr>count = 1\<rparr> =
     [([Write Stdout (''[INFO] Application running - iteration 2'' @ [newline]), Sleep 3],
       \<lparr>count = 2\<rparr>)]"
  by (simp add: loop_body_def Let_def emit_status_branches sleep_def heartbeat_text_def str_2)

lemma loop_body_4:
  "loop_body \<lparr>count = 4\<rparr> =
     map (\<lambda>r. ([Randint 1 100 r, Write Stdout (batch_text r @ [newline]), Sleep 3], \<lparr>count = 5\<rparr>))
         (randint 1 100)"
  by (simp add: loop_body_def Let_def emit_status_branches sleep_def)

lemma loop_body_7:
  "loop_body \<lparr>count = 7\<rparr> =
     [([Write Stderr (import_error_text @ [newline]), Sleep 3], \<lparr>count = 8\<rparr>)]"
  by (simp add: loop_body_def Let_def emit_status_branches sleep_def)

lemma loop_body_8:
  "loop_body \<lparr>count = 8\<rparr> =
     [([Write Stdout (''[INFO] Application running - iteration 9'' @ [newline]), Sleep 3],
       \<lparr>count = 9\<rparr>)]"
  by (simp add: loop_body_def Let_def emit_status_branches sleep_def heartbeat_text_def str_9)

lemma banner_not_in_pass:
  assumes "(es, s') \<in> set (loop_body s)"
  shows "(Stdout, banner_start @ [newline]) \<notin> set (written es)
       \<and> (Stdout, banner_project @ [newline]) \<notin> set (written es)"
proof -
  let ?n = "count s + 1"
  from assms obtain st where st: "st \<in> set (emit_status ?n)" and es: "es = st @ [Sleep 3]"
    by (auto simp: loop_body_def Let_def sleep_def)
  consider (a) "?n mod 8 = 0" | (b) "?n mod 8 \<noteq> 0" "?n mod 12 = 0"
    | (c) "?n mod 8 \<noteq> 0" "?n mod 12 \<noteq> 0" "?n mod 5 = 0"
    | (d) "?n mod 8 \<noteq> 0" "?n mod 12 \<noteq> 0" "?n mod 5 \<noteq> 0"
    by blast
  then show ?thesis
  proof cases
    case a
    with st es show ?thesis by (simp add: emit_status_branches)
  next
    case b
    with st es show ?thesis
      by (simp add: emit_status_branches db_success_text_def banner_start_def banner_project_def)
  next
    case c
    with st obtain r where "st = [Randint 1 100 r, Write Stdout (batch_text r @ [newline])]"
      by (auto simp: emit_status_branches)
    with es show ?thesis
      by (simp add: batch_text_def banner_start_def banner_project_def)
  next
    case d
    with st es show ?thesis
      by (simp add: emit_status_branches heartbeat_text_def banner_start_def banner_project_def)
  qed
qed

subsection \<open>Runs of the loop\<close>

lemma while_True_step:
  "(es, r) \<in> set (while_True (Suc fuel) s) \<longleftrightarrow>
     (\<exists>es1 s1 es2. es = es1 @ es2 \<and> (es1, s1) \<in> set (loop_body s)
        \<and> (es2, r) \<in> set (while_True fuel s1))"
  by (simp del: split_paired_Ex) fastforce

lemma while_True_front:
  "(es, r) \<in> set (while_True (Suc fuel) s) \<longleftrightarrow>
     (\<exists>es1 es2. es = es1 @ es2 \<and> (es1, s\<lparr>count := count s + 1\<rparr>) \<in> set (loop_body s)
        \<and> (es2, r) \<in> set (while_True fuel (s\<lparr>count := count s + 1\<rparr>)))"
  unfolding while_True_step using loop_body_state by blast

lemma while_True_Looping:
  "(es, c, s') \<in> set (while_True fuel s) \<Longrightarrow> c = Looping \<and> s' = s\<lparr>count := count s + int fuel\<rparr>"
proof (induction fuel arbitrary: es s)
  case 0
  then show ?case by simp
next
  case (Suc fuel)
  from Suc.prems obtain es1 es2 where
    "(es2, c, s') \<in> set (while_True fuel (s\<lparr>count := count s + 1\<rparr>))"
    unfolding while_True_front by blast
  from Suc.IH [OF this] show ?case by simp
qed

lemma while_True_nonempty: "while_True fuel s \<noteq> []"
proof (induction fuel arbitrary: s)
  case 0
  show ?case by simp
next
  case (Suc fuel)
  obtain es1 s1 where "(es1, s1) \<in> set (loop_body s)"
    using loop_body_nonempty [of s] by (cases "loop_body s") auto
  moreover then have s1: "s1 = s\<lparr>count := count s + 1\<rparr>" by (rule loop_body_state)
  moreover obtain es2 r where "(es2, r) \<in> set (while_True fuel s1)"
    using Suc [of s1] by (cases "while_True fuel s1") auto
  ultimately have "(es1 @ es2, r) \<in> set (while_True (Suc fuel) s)"
    unfolding while_True_front by blast
  then show ?case by (metis empty_iff empty_set)
qed

lemma while_True_back:
  "(es, c, s') \<in> set (while_True (Suc fuel) s) \<longleftrightarrow>
     (\<exists>es1 es2 s1. es = es1 @ es2 \<and> (es1, Looping, s1) \<in> set (while_True fuel s)
        \<and> (es2, s') \<in> set (loop_body s1) \<and> c = Looping)"
proof (induction fuel arbitrary: es s)
  case 0
  show ?case by (auto simp: loop_body_def Let_def)
next
  case (Suc fuel)
  let ?s = "s\<lparr>count := count s + 1\<rparr>"
  show ?case
  proof
    assume "(es, c, s') \<in> set (while_True (Suc (Suc fuel)) s)"
    then obtain e1 e2 where e: "es = e1 @ e2" "(e1, ?s) \<in> set (loop_body s)"
      "(e2, c, s') \<in> set (while_True (Suc fuel) ?s)"
      unfolding while_True_front [of es "(c, s')" "Suc fuel"] by blast
    from e(3) obtain f1 f2 s1 where f: "e2 = f1 @ f2" "(f1, Looping, s1) \<in> set (while_True fuel ?s)"
      "(f2, s') \<in> set (loop_body s1)" "c = Looping"
      unfolding Suc.IH by blast
    from e(2) f(2) have "(e1 @ f1, Looping, s1) \<in> set (while_True (Suc fuel) s)"
      unfolding while_True_front [of "e1 @ f1" _ fuel] by blast
    with e(1) f show "\<exists>es1 es2 s1. es = es1 @ es2 \<and> (es1, Looping, s1) \<in> set (while_True (Suc fuel) s)
        \<and> (es2, s') \<in> set (loop_body s1) \<and> c = Looping"
      by (metis append.assoc)
  next
    assume "\<exists>es1 es2 s1. es = es1 @ es2 \<and> (es1, Looping, s1) \<in> set (while_True (Suc fuel) s)
        \<and> (es2, s') \<in> set (loop_body s1) \<and> c = Looping"
    then obtain es1 es2 s1 where g: "es = es1 @ es2" "(es1, Looping, s1) \<in> set (while_True (Suc fuel) s)"
        "(es2, s') \<in> set (loop_body s1)" "c = Looping"
      by blast
    from g(2) obtain e1 e2 where e: "es1 = e1 @ e2" "(e1, ?s) \<in> set (loop_body s)"
      "(e2, Looping, s1) \<in> set (while_True fuel ?s)"
      unfolding while_True_front [of es1 _ fuel] by blast
    from e(3) g(3) g(4) have "(e2 @ es2, c, s') \<in> set (while_True (Suc fuel) ?s)"
      unfolding Suc.IH by blast
    with e(2) have "(e1 @ (e2 @ es2), c, s') \<in> set (while_True (Suc (Suc fuel)) s)"
      unfolding while_True_front [of "e1 @ (e2 @ es2)" _ "Suc fuel"] by blast
    with g(1) e(1) show "(es, c, s') \<in> set (while_True (Suc (Suc fuel)) s)" by simp
  qed
qed

lemma while_True_stamped:
  "(es, r) \<in> set (while_True fuel s) \<Longrightarrow>
     map fst (stamped t es) = map (\<lambda>i. t + 3 * int i) [0..<fuel] \<and> slept es = 3 * int fuel"
proof (induction fuel arbitrary: es r)
  case 0
  then show ?case by simp
next
  case (Suc fuel)
  obtain c s' where r: "r = (c, s')" by (cases r)
  with Suc.prems have "(es, c, s') \<in> set (while_True (Suc fuel) s)" by simp
  then obtain es1 es2 s1 where e: "es = es1 @ es2"
    "(es1, Looping, s1) \<in> set (while_True fuel s)" "(es2, s') \<in> set (loop_body s1)"
    unfolding while_True_back by blast
  from Suc.IH [OF e(2)] have ih: "map fst (stamped t es1) = map (\<lambda>i. t + 3 * int i) [0..<fuel]"
    "slept es1 = 3 * int fuel" by simp_all
  from pass_stamped [OF e(3), of "t + slept es1"]
  have p: "map fst (stamped (t + slept es1) es2) = [t + slept es1]" "slept es2 = 3" by simp_all
  have "map fst (stamped t es) = map fst (stamped t es1) @ map fst (stamped (t + slept es1) es2)"
    unfolding e(1) stamped_append by simp
  also have "\<dots> = map (\<lambda>i. t + 3 * int i) [0..<fuel] @ [t + 3 * int fuel]"
    using ih p by simp
  also have "\<dots> = map (\<lambda>i. t + 3 * int i) [0..<Suc fuel]" by simp
  finally have "map fst (stamped t es) = map (\<lambda>i. t + 3 * int i) [0..<Suc fuel]" .
  moreover have "slept es = 3 * int (Suc fuel)"
    using ih(2) p(2) by (simp add: e(1) slept_append)
  ultimately show ?case by blast
qed

lemma while_True_2_init:
  "while_True (Suc (Suc 0)) init =
     [([Write Stdout (''[INFO] Application running - iteration 1'' @ [newline]), Sleep 3,
        Write Stdout (''[INFO] Application running - iteration 2'' @ [newline]), Sleep 3],
       Looping, \<lparr>count = 2\<rparr>)]"
  by (simp add: init_def loop_body_0 loop_body_1)

lemma program_stamped:
  assumes "(es, r) \<in> set (program fuel)"
  shows "map fst (stamped 0 es) = 0 # 0 # map (\<lambda>i. 3 * int i) [0..<fuel]"
proof -
  from assms obtain rest where rest: "(rest, r) \<in> set (while_True fuel init)"
    and es: "es = print Stdout banner_start @ print Stdout banner_project @ rest"
    by (auto simp: program_def)
  from while_True_stamped [OF rest, of 0] show ?thesis
    unfolding es by (simp add: print_def)
qed

section \<open>The claims\<close>

subsection \<open>The import-error line has precedence\<close>

text \<open>
  Claim C1. Whenever the value of \<open>count\<close> in a pass is a multiple of 8, the pass writes
  the fixed import-error text, as one line, to the standard error stream and writes
  nothing else, whatever the remainders of the value by 12 and by 5 are; the values 24
  and 40 are instances. The text is spelled out: the three bytes of the cross mark, then
  \<open> ImportError: No module named 'requests'\<close>, then the newline.
\<close>

theorem import_error_precedence:
  "(count s + 1) mod 8 = 0 \<Longrightarrow>
     loop_body s =
       [([Write Stderr
            ([CHR 0xE2, CHR 0x9D, CHR 0x8C] @ '' ImportError: No module named ''
              @ [CHR 0x27] @ ''requests'' @ [CHR 0x27] @ [CHR 0x0A]),
          Sleep 3], s\<lparr>count := count s + 1\<rparr>)]"
  by (simp add: loop_body_def Let_def emit_status_branches sleep_def import_error_text_def
        newline_def)

text \<open>An instance.\<close>

theorem import_error_precedence_witness:
  "(count \<lparr>count = 23\<rparr> + 1) mod 8 = 0 \<and> (count \<lparr>count = 23\<rparr> + 1) mod 12 = 0
   \<and> loop_body \<lparr>count = 23\<rparr> =
       [([Write Stderr
            ([CHR 0xE2, CHR 0x9D, CHR 0x8C] @ '' ImportError: No module named ''
              @ [CHR 0x27] @ ''requests'' @ [CHR 0x27] @ [CHR 0x0A]),
          Sleep 3], \<lparr>count = 24\<rparr>)]
   \<and> (count \<lparr>count = 39\<rparr> + 1) mod 8 = 0 \<and> (count \<lparr>count = 39\<rparr> + 1) mod 5 = 0
   \<and> loop_body \<lparr>count = 39\<rparr> =
       [([Write Stderr
            ([CHR 0xE2, CHR 0x9D, CHR 0x8C] @ '' ImportError: No module named ''
              @ [CHR 0x27] @ ''requests'' @ [CHR 0x27] @ [CHR 0x0A]),
          Sleep 3], \<lparr>count = 40\<rparr>)]"
  using import_error_precedence [of "\<lparr>count = 23\<rparr>"] import_error_precedence [of "\<lparr>count = 39\<rparr>"]
  by simp

subsection \<open>One line in each pass\<close>

text \<open>
  Claim C2. Every pass of the loop, whatever the value of \<open>count\<close>, writes exactly one
  piece of data, and that piece is one line: a text without a newline, followed by a
  newline.
\<close>

theorem one_line_per_pass:
  assumes "(es, s') \<in> set (loop_body s)"
  shows "\<exists>f text. written es = [(f, text @ [newline])] \<and> newline \<notin> set text"
proof -
  from loop_body_shape [OF assms] obtain pre f line
    where "es = pre @ [Write f (line @ [newline]), Sleep 3]" "newline \<notin> set line" "written pre = []"
    by blast
  then show ?thesis by (auto simp: written_append)
qed

text \<open>An instance.\<close>

theorem one_line_per_pass_witness:
  "([Write Stdout (''[INFO] Application running - iteration 1'' @ [newline]), Sleep 3],
      \<lparr>count = 1\<rparr>) \<in> set (loop_body \<lparr>count = 0\<rparr>)
   \<and> (\<exists>f line.
        written [Write Stdout (''[INFO] Application running - iteration 1'' @ [newline]), Sleep 3]
          = [(f, line @ [newline])] \<and> newline \<notin> set line)"
proof -
  have h: "([Write Stdout (''[INFO] Application running - iteration 1'' @ [newline]), Sleep 3],
      \<lparr>count = 1\<rparr>) \<in> set (loop_body \<lparr>count = 0\<rparr>)"
    by (simp add: loop_body_0)
  from h one_line_per_pass [OF h] show ?thesis by (rule conjI)
qed

subsection \<open>The success line\<close>

text \<open>
  Claim C3. Whenever the value of \<open>count\<close> in a pass is a multiple of 12 and not of 8,
  the pass writes the fixed success text, as one line, to the standard output stream:
  the three bytes of the check mark, then \<open> Database connection successful\<close>, then the
  newline.
\<close>

theorem db_success_branch:
  "(count s + 1) mod 8 \<noteq> 0 \<Longrightarrow> (count s + 1) mod 12 = 0 \<Longrightarrow>
     loop_body s =
       [([Write Stdout
            ([CHR 0xE2, CHR 0x9C, CHR 0x85] @ '' Database connection successful''
              @ [CHR 0x0A]),
          Sleep 3], s\<lparr>count := count s + 1\<rparr>)]"
  by (simp add: loop_body_def Let_def emit_status_branches sleep_def db_success_text_def
        newline_def)

text \<open>An instance.\<close>

theorem db_success_branch_witness:
  "(count \<lparr>count = 11\<rparr> + 1) mod 8 \<noteq> 0 \<and> (count \<lparr>count = 11\<rparr> + 1) mod 12 = 0
   \<and> loop_body \<lparr>count = 11\<rparr> =
       [([Write Stdout
            ([CHR 0xE2, CHR 0x9C, CHR 0x85] @ '' Database connection successful''
              @ [CHR 0x0A]),
          Sleep 3], \<lparr>count = 12\<rparr>)]"
  using db_success_branch [of "\<lparr>count = 11\<rparr>"] by simp

subsection \<open>The batch line\<close>

text \<open>
  Claim C4. In a pass whose value of \<open>count\<close> is a multiple of 5 and neither of 8 nor of
  12, the script draws one number with \<open>random.randint(1, 100)\<close>, which lies between 1
  and 100, and writes the batch line to the standard output stream: the four bytes of
  the bar chart, then \<open> Processing data batch \<close>, then the decimal digits of the number
  drawn, which read back as that number, then the newline. In every other pass no
  number is drawn; and in every pass the state after it is the state before it with
  \<open>count\<close> incremented, so the number is kept nowhere.
\<close>

theorem batch_branch:
  assumes "(es, s') \<in> set (loop_body s)"
  shows "((count s + 1) mod 8 \<noteq> 0 \<and> (count s + 1) mod 12 \<noteq> 0 \<and> (count s + 1) mod 5 = 0 \<longrightarrow>
           (\<exists>r. 1 \<le> r \<and> r \<le> 100 \<and>
              es = [Randint 1 100 r,
                    Write Stdout
                      ([CHR 0xF0, CHR 0x9F, CHR 0x93, CHR 0x8A] @ '' Processing data batch ''
                        @ str r @ [CHR 0x0A]),
                    Sleep 3]
              \<and> int_of_text (str r) = r))
       \<and> (\<not> ((count s + 1) mod 8 \<noteq> 0 \<and> (count s + 1) mod 12 \<noteq> 0 \<and> (count s + 1) mod 5 = 0) \<longrightarrow>
           drawn es = [])
       \<and> s' = s\<lparr>count := count s + 1\<rparr>"
  using assms
  by (auto simp: loop_body_def Let_def emit_status_branches sleep_def set_randint batch_text_def
        newline_def int_of_text_str split: if_splits)

text \<open>An instance: the pass with the value 5, when the number drawn is 7.\<close>

theorem batch_branch_witness:
  "([Randint 1 100 7,
     Write Stdout
       ([CHR 0xF0, CHR 0x9F, CHR 0x93, CHR 0x8A] @ '' Processing data batch '' @ ''7'' @ [CHR 0x0A]),
     Sleep 3], \<lparr>count = 5\<rparr>)
      \<in> set (loop_body \<lparr>count = 4\<rparr>)
   \<and> (count \<lparr>count = 4\<rparr> + 1) mod 8 \<noteq> 0 \<and> (count \<lparr>count = 4\<rparr> + 1) mod 12 \<noteq> 0
   \<and> (count \<lparr>count = 4\<rparr> + 1) mod 5 = 0
   \<and> (\<exists>r. 1 \<le> r \<and> r \<le> 100 \<and>
        [Randint 1 100 7,
         Write Stdout
           ([CHR 0xF0, CHR 0x9F, CHR 0x93, CHR 0x8A] @ '' Processing data batch '' @ ''7'' @ [CHR 0x0A]),
         Sleep 3]
          = [Randint 1 100 r,
             Write Stdout
               ([CHR 0xF0, CHR 0x9F, CHR 0x93, CHR 0x8A] @ '' Processing data batch ''
                 @ str r @ [CHR 0x0A]),
             Sleep 3]
        \<and> int_of_text (str r) = r)
   \<and> \<lparr>count = 5\<rparr> = \<lparr>count = 4\<rparr>\<lparr>count := count \<lparr>count = 4\<rparr> + 1\<rparr>"
proof -
  have "(7::int) \<in> set (randint 1 100)" by (simp add: set_randint)
  then have h: "([Randint 1 100 7,
     Write Stdout
       ([CHR 0xF0, CHR 0x9F, CHR 0x93, CHR 0x8A] @ '' Processing data batch '' @ ''7'' @ [CHR 0x0A]),
     Sleep 3], \<lparr>count = 5\<rparr>)
      \<in> set (loop_body \<lparr>count = 4\<rparr>)"
    unfolding loop_body_4 set_map
    by (rule rev_image_eqI) (simp add: batch_text_def str_7 newline_def)
  have m1: "(count \<lparr>count = 4\<rparr> + 1) mod 8 \<noteq> 0"
    and m2: "(count \<lparr>count = 4\<rparr> + 1) mod 12 \<noteq> 0"
    and m3: "(count \<lparr>count = 4\<rparr> + 1) mod 5 = 0"
    by simp_all
  note b = batch_branch [OF h]
  from b have "(count \<lparr>count = 4\<rparr> + 1) mod 8 \<noteq> 0 \<and> (count \<lparr>count = 4\<rparr> + 1) mod 12 \<noteq> 0
      \<and> (count \<lparr>count = 4\<rparr> + 1) mod 5 = 0 \<longrightarrow>
      (\<exists>r. 1 \<le> r \<and> r \<le> 100 \<and>
        [Randint 1 100 7,
         Write Stdout
           ([CHR 0xF0, CHR 0x9F, CHR 0x93, CHR 0x8A] @ '' Processing data batch '' @ ''7'' @ [CHR 0x0A]),
         Sleep 3]
          = [Randint 1 100 r,
             Write Stdout
               ([CHR 0xF0, CHR 0x9F, CHR 0x93, CHR 0x8A] @ '' Processing data batch ''
                 @ str r @ [CHR 0x0A]),
             Sleep 3]
        \<and> int_of_text (str r) = r)"
    by (rule conjunct1)
  with m1 m2 m3 have e: "\<exists>r. 1 \<le> r \<and> r \<le> 100 \<and>
        [Randint 1 100 7,
         Write Stdout
           ([CHR 0xF0, CHR 0x9F, CHR 0x93, CHR 0x8A] @ '' Processing data batch '' @ ''7'' @ [CHR 0x0A]),
         Sleep 3]
          = [Randint 1 100 r,
             Write Stdout
               ([CHR 0xF0, CHR 0x9F, CHR 0x93, CHR 0x8A] @ '' Processing data batch ''
                 @ str r @ [CHR 0x0A]),
             Sleep 3]
        \<and> int_of_text (str r) = r"
    by (simp only: simp_thms)
  from b have st: "\<lparr>count = 5\<rparr> = \<lparr>count = 4\<rparr>\<lparr>count := count \<lparr>count = 4\<rparr> + 1\<rparr>"
    by (rule conjunct2 [THEN conjunct2])
  show ?thesis by (intro conjI) (rule h m1 m2 m3 e st)+
qed

subsection \<open>The heartbeat line\<close>

text \<open>
  Claim C5. Whenever the value of \<open>count\<close> in a pass is a multiple of none of 8, 12
  and 5, the pass writes to the standard output stream the heartbeat line, which ends
  with the decimal digits of that value, and these digits read back as the value; for
  the value 1 the line is \<open>[INFO] Application running - iteration 1\<close>.
\<close>

theorem heartbeat_branch:
  "(count s + 1) mod 8 \<noteq> 0 \<Longrightarrow> (count s + 1) mod 12 \<noteq> 0 \<Longrightarrow> (count s + 1) mod 5 \<noteq> 0 \<Longrightarrow>
     loop_body s =
       [([Write Stdout (''[INFO] Application running - iteration '' @ str (count s + 1) @ [newline]),
          Sleep 3], s\<lparr>count := count s + 1\<rparr>)]
     \<and> int_of_text (str (count s + 1)) = count s + 1"
  by (simp add: loop_body_def Let_def emit_status_branches sleep_def heartbeat_text_def
        int_of_text_str)

text \<open>An instance.\<close>

theorem heartbeat_branch_witness:
  "(count \<lparr>count = 0\<rparr> + 1) mod 8 \<noteq> 0 \<and> (count \<lparr>count = 0\<rparr> + 1) mod 12 \<noteq> 0
   \<and> (count \<lparr>count = 0\<rparr> + 1) mod 5 \<noteq> 0
   \<and> loop_body \<lparr>count = 0\<rparr> =
       [([Write Stdout (''[INFO] Application running - iteration 1'' @ [newline]), Sleep 3],
         \<lparr>count = 1\<rparr>)]"
  using heartbeat_branch [of "\<lparr>count = 0\<rparr>"] by (simp add: str_1)

subsection \<open>The counter\<close>

text \<open>
  Claim C6. The counter is 0 before the first pass and \<open>k\<close> after \<open>k\<close> passes, so it
  grows by one with each pass and exceeds every bound; and the \<open>k\<close>-th pass, for
  \<open>k\<close> at least 1, follows a run of \<open>k - 1\<close> passes that ended with the counter at
  \<open>k - 1\<close>, and chooses and prints its line for the value \<open>k\<close>, the counter having
  been incremented before the chain of tests.
\<close>

theorem counter_tracks_iteration:
  assumes "(es, c, s') \<in> set (program k)"
  shows "count s' = int k
    \<and> (0 < k \<longrightarrow>
         (\<exists>pre st. es = pre @ st @ [Sleep 3]
            \<and> (pre, Looping, \<lparr>count = int k - 1\<rparr>) \<in> set (program (k - 1))
            \<and> st \<in> set (emit_status (int k))))"
proof
  from assms obtain rest where rest: "(rest, c, s') \<in> set (while_True k init)"
    and es: "es = print Stdout banner_start @ print Stdout banner_project @ rest"
    by (auto simp: program_def)
  from while_True_Looping [OF rest] show k: "count s' = int k" by (simp add: init_def)
  show "0 < k \<longrightarrow>
         (\<exists>pre st. es = pre @ st @ [Sleep 3]
            \<and> (pre, Looping, \<lparr>count = int k - 1\<rparr>) \<in> set (program (k - 1))
            \<and> st \<in> set (emit_status (int k)))"
  proof
    assume "0 < k"
    then obtain j where j: "k = Suc j" by (cases k) auto
    from rest obtain es1 es2 s1 where e: "rest = es1 @ es2"
      "(es1, Looping, s1) \<in> set (while_True j init)" "(es2, s') \<in> set (loop_body s1)"
      unfolding j while_True_back by blast
    from while_True_Looping [OF e(2)] have s1: "s1 = \<lparr>count = int j\<rparr>" by (simp add: init_def)
    from e(3) obtain st where st: "es2 = st @ [Sleep 3]" "st \<in> set (emit_status (int j + 1))"
      unfolding s1 by (auto simp: loop_body_def Let_def sleep_def)
    let ?pre = "print Stdout banner_start @ print Stdout banner_project @ es1"
    have "(?pre, Looping, \<lparr>count = int k - 1\<rparr>) \<in> set (program (k - 1))"
      using e(2) s1 j by (force simp: program_def)
    moreover have "es = ?pre @ st @ [Sleep 3]" using es e(1) st(1) by simp
    moreover have "st \<in> set (emit_status (int k))" using st(2) j by (simp add: add.commute)
    ultimately show "\<exists>pre st. es = pre @ st @ [Sleep 3]
            \<and> (pre, Looping, \<lparr>count = int k - 1\<rparr>) \<in> set (program (k - 1))
            \<and> st \<in> set (emit_status (int k))"
      by blast
  qed
qed

text \<open>An instance.\<close>

theorem counter_tracks_iteration_witness:
  "([Write Stdout (banner_start @ [newline]), Write Stdout (banner_project @ [newline]),
     Write Stdout (''[INFO] Application running - iteration 1'' @ [newline]), Sleep 3,
     Write Stdout (''[INFO] Application running - iteration 2'' @ [newline]), Sleep 3],
    Looping, \<lparr>count = 2\<rparr>) \<in> set (program (Suc (Suc 0)))
   \<and> count \<lparr>count = 2\<rparr> = int (Suc (Suc 0))
   \<and> 0 < Suc (Suc 0)
   \<and> (\<exists>pre st.
         [Write Stdout (banner_start @ [newline]), Write Stdout (banner_project @ [newline]),
          Write Stdout (''[INFO] Application running - iteration 1'' @ [newline]), Sleep 3,
          Write Stdout (''[INFO] Application running - iteration 2'' @ [newline]), Sleep 3]
           = pre @ st @ [Sleep 3]
         \<and> (pre, Looping, \<lparr>count = int (Suc (Suc 0)) - 1\<rparr>) \<in> set (program (Suc (Suc 0) - 1))
         \<and> st \<in> set (emit_status (int (Suc (Suc 0)))))"
proof -
  have h: "([Write Stdout (banner_start @ [newline]), Write Stdout (banner_project @ [newline]),
     Write Stdout (''[INFO] Application running - iteration 1'' @ [newline]), Sleep 3,
     Write Stdout (''[INFO] Application running - iteration 2'' @ [newline]), Sleep 3],
    Looping, \<lparr>count = 2\<rparr>) \<in> set (program (Suc (Suc 0)))"
    unfolding program_def while_True_2_init by (simp add: print_def)
  from h counter_tracks_iteration [OF h] show ?thesis by blast
qed

subsection \<open>The error line is only a line\<close>

text \<open>
  Claim C7. After a pass, whichever branch it took, the state is the state before it
  with \<open>count\<close> incremented. A pass that prints the import-error line is followed by
  the rest of the loop exactly as it runs from the incremented counter, and so is every
  other pass: the runs of the loop are the events of a first pass followed by a run
  from the incremented counter.
\<close>

theorem error_line_is_cosmetic:
  "(\<forall>(es, s') \<in> set (loop_body s). s' = s\<lparr>count := count s + 1\<rparr>)
   \<and> ((count s + 1) mod 8 = 0 \<longrightarrow>
        while_True (Suc fuel) s =
          map (\<lambda>(es, r). (Write Stderr (import_error_text @ [newline]) # Sleep 3 # es, r))
              (while_True fuel (s\<lparr>count := count s + 1\<rparr>)))
   \<and> (\<forall>es r. (es, r) \<in> set (while_True (Suc fuel) s) \<longleftrightarrow>
        (\<exists>es1 es2. es = es1 @ es2 \<and> es1 \<in> fst ` set (loop_body s)
           \<and> (es2, r) \<in> set (while_True fuel (s\<lparr>count := count s + 1\<rparr>))))"
proof (intro conjI)
  show "\<forall>(es, s') \<in> set (loop_body s). s' = s\<lparr>count := count s + 1\<rparr>"
    using loop_body_state by blast
next
  show "(count s + 1) mod 8 = 0 \<longrightarrow>
        while_True (Suc fuel) s =
          map (\<lambda>(es, r). (Write Stderr (import_error_text @ [newline]) # Sleep 3 # es, r))
              (while_True fuel (s\<lparr>count := count s + 1\<rparr>))"
    by (simp add: loop_body_def Let_def emit_status_branches sleep_def)
next
  show "\<forall>es r. (es, r) \<in> set (while_True (Suc fuel) s) \<longleftrightarrow>
        (\<exists>es1 es2. es = es1 @ es2 \<and> es1 \<in> fst ` set (loop_body s)
           \<and> (es2, r) \<in> set (while_True fuel (s\<lparr>count := count s + 1\<rparr>)))"
  proof (intro allI)
    fix es r
    have "es1 \<in> fst ` set (loop_body s) \<longleftrightarrow> (es1, s\<lparr>count := count s + 1\<rparr>) \<in> set (loop_body s)"
      for es1
      using loop_body_state [of es1 _ s] by force
    then show "(es, r) \<in> set (while_True (Suc fuel) s) \<longleftrightarrow>
        (\<exists>es1 es2. es = es1 @ es2 \<and> es1 \<in> fst ` set (loop_body s)
           \<and> (es2, r) \<in> set (while_True fuel (s\<lparr>count := count s + 1\<rparr>)))"
      unfolding while_True_front by simp
  qed
qed

text \<open>An instance.\<close>

theorem error_line_is_cosmetic_witness:
  "(count \<lparr>count = 7\<rparr> + 1) mod 8 = 0
   \<and> ([Write Stderr (import_error_text @ [newline]), Sleep 3], \<lparr>count = 8\<rparr>)
        \<in> set (loop_body \<lparr>count = 7\<rparr>)
   \<and> while_True (Suc (Suc 0)) \<lparr>count = 7\<rparr> =
        [([Write Stderr (import_error_text @ [newline]), Sleep 3,
           Write Stdout (''[INFO] Application running - iteration 9'' @ [newline]), Sleep 3],
          Looping, \<lparr>count = 9\<rparr>)]"
proof -
  have w: "while_True (Suc 0) \<lparr>count = 8\<rparr> =
        [([Write Stdout (''[INFO] Application running - iteration 9'' @ [newline]), Sleep 3],
          Looping, \<lparr>count = 9\<rparr>)]"
    by (simp add: loop_body_8)
  have m: "(count \<lparr>count = 7\<rparr> + 1) mod 8 = 0" by simp
  have "while_True (Suc (Suc 0)) \<lparr>count = 7\<rparr> =
          map (\<lambda>(es, r). (Write Stderr (import_error_text @ [newline]) # Sleep 3 # es, r))
              (while_True (Suc 0) (\<lparr>count = 7\<rparr>\<lparr>count := count \<lparr>count = 7\<rparr> + 1\<rparr>))"
    using error_line_is_cosmetic [of "\<lparr>count = 7\<rparr>" "Suc 0"] m by blast
  then show ?thesis using w by (simp add: loop_body_7)
qed

subsection \<open>The loop does not end\<close>

text \<open>
  Claim C8. From every state a pass of the loop has an outcome, and however many passes
  the loop is given, it has an outcome and in each of its outcomes it is still running:
  the loop never leaves the \<open>while\<close> statement by itself.
\<close>

theorem loop_never_exits:
  "loop_body s \<noteq> [] \<and> while_True fuel s \<noteq> []
   \<and> (\<forall>(es, c, s') \<in> set (while_True fuel s). c = Looping)"
  using loop_body_nonempty while_True_nonempty while_True_Looping by blast

text \<open>An instance.\<close>

theorem loop_never_exits_witness:
  "([Write Stdout (''[INFO] Application running - iteration 1'' @ [newline]), Sleep 3,
     Write Stdout (''[INFO] Application running - iteration 2'' @ [newline]), Sleep 3],
    Looping, \<lparr>count = 2\<rparr>) \<in> set (while_True (Suc (Suc 0)) init)
   \<and> loop_body init \<noteq> [] \<and> while_True (Suc (Suc 0)) init \<noteq> []
   \<and> ([Write Stdout (''[INFO] Application running - iteration 1'' @ [newline]), Sleep 3,
        Write Stdout (''[INFO] Application running - iteration 2'' @ [newline]), Sleep 3],
       Exited, \<lparr>count = 2\<rparr>) \<notin> set (while_True (Suc (Suc 0)) init)"
proof -
  have h: "([Write Stdout (''[INFO] Application running - iteration 1'' @ [newline]), Sleep 3,
     Write Stdout (''[INFO] Application running - iteration 2'' @ [newline]), Sleep 3],
    Looping, \<lparr>count = 2\<rparr>) \<in> set (while_True (Suc (Suc 0)) init)"
    unfolding while_True_2_init by simp
  note t = loop_never_exits [of init "Suc (Suc 0)"]
  from t have a: "loop_body init \<noteq> []" by (rule conjunct1)
  from t have b: "while_True (Suc (Suc 0)) init \<noteq> []" by (rule conjunct2 [THEN conjunct1])
  from t have "\<forall>(es, c, s') \<in> set (while_True (Suc (Suc 0)) init). c = Looping"
    by (rule conjunct2 [THEN conjunct2])
  then have c: "([Write Stdout (''[INFO] Application running - iteration 1'' @ [newline]), Sleep 3,
        Write Stdout (''[INFO] Application running - iteration 2'' @ [newline]), Sleep 3],
       Exited, \<lparr>count = 2\<rparr>) \<notin> set (while_True (Suc (Suc 0)) init)"
    by fastforce
  show ?thesis by (intro conjI) (rule h a b c)+
qed

subsection \<open>The sleep between lines\<close>

text \<open>
  Claim C9. The events of every pass end with the one line written followed by
  \<open>time.sleep(3)\<close>, with no other write or sleep before them; hence in every run of the
  loop the \<open>i\<close>-th line (counting from 0) is written after \<open>3 * i\<close> seconds of requested
  sleep, three seconds after the line before it.
\<close>

theorem sleep_between_lines:
  "(\<forall>(es, s') \<in> set (loop_body s).
      \<exists>pre f line. es = pre @ [Write f line, Sleep 3] \<and> written pre = [] \<and> slept pre = 0)
   \<and> (\<forall>(es, r) \<in> set (while_True fuel s).
        map fst (stamped t es) = map (\<lambda>i. t + 3 * int i) [0..<fuel])"
proof (intro conjI ballI)
  fix x assume x: "x \<in> set (loop_body s)"
  obtain es s' where "x = (es, s')" by (cases x)
  with x loop_body_shape [of es s' s 0]
  show "case x of (es, s') \<Rightarrow>
      \<exists>pre f line. es = pre @ [Write f line, Sleep 3] \<and> written pre = [] \<and> slept pre = 0"
    by auto
next
  fix x assume x: "x \<in> set (while_True fuel s)"
  obtain es r where "x = (es, r)" by (cases x)
  with x while_True_stamped [of es r fuel s t]
  show "case x of (es, r) \<Rightarrow> map fst (stamped t es) = map (\<lambda>i. t + 3 * int i) [0..<fuel]"
    by simp
qed

text \<open>An instance.\<close>

theorem sleep_between_lines_witness:
  "([Write Stdout (''[INFO] Application running - iteration 1'' @ [newline]), Sleep 3],
      \<lparr>count = 1\<rparr>) \<in> set (loop_body init)
   \<and> ([Write Stdout (''[INFO] Application running - iteration 1'' @ [newline]), Sleep 3,
        Write Stdout (''[INFO] Application running - iteration 2'' @ [newline]), Sleep 3],
       Looping, \<lparr>count = 2\<rparr>) \<in> set (while_True (Suc (Suc 0)) init)
   \<and> map fst (stamped 0
        [Write Stdout (''[INFO] Application running - iteration 1'' @ [newline]), Sleep 3,
         Write Stdout (''[INFO] Application running - iteration 2'' @ [newline]), Sleep 3])
      = [0, 3]"
proof -
  have h: "([Write Stdout (''[INFO] Application running - iteration 1'' @ [newline]), Sleep 3],
      \<lparr>count = 1\<rparr>) \<in> set (loop_body init)"
    by (simp add: init_def loop_body_0)
  have g: "([Write Stdout (''[INFO] Application running - iteration 1'' @ [newline]), Sleep 3,
        Write Stdout (''[INFO] Application running - iteration 2'' @ [newline]), Sleep 3],
       Looping, \<lparr>count = 2\<rparr>) \<in> set (while_True (Suc (Suc 0)) init)"
    unfolding while_True_2_init by simp
  have "\<forall>(es, r) \<in> set (while_True (Suc (Suc 0)) init).
        map fst (stamped 0 es) = map (\<lambda>i. 0 + 3 * int i) [0..<Suc (Suc 0)]"
    using sleep_between_lines [of init "Suc (Suc 0)" 0] by (rule conjunct2)
  with g have "map fst (stamped 0
        [Write Stdout (''[INFO] Application running - iteration 1'' @ [newline]), Sleep 3,
         Write Stdout (''[INFO] Application running - iteration 2'' @ [newline]), Sleep 3])
      = map (\<lambda>i. 0 + 3 * int i) [0..<Suc (Suc 0)]"
    by blast
  then have "map fst (stamped 0
        [Write Stdout (''[INFO] Application running - iteration 1'' @ [newline]), Sleep 3,
         Write Stdout (''[INFO] Application running - iteration 2'' @ [newline]), Sleep 3])
      = [0, 3]"
    by (simp only: upt_rec [of 0] upt_rec [of "Suc 0"] upt_rec [of "Suc (Suc 0)"]) simp
  with h g show ?thesis by blast
qed

subsection \<open>The startup banner\<close>

text \<open>
  Claim C10. Before the first pass of the loop the script has written exactly the two
  banner lines, both to the standard output stream: the four bytes of the snake, then
  \<open> Starting Python application...\<close>, and the four bytes of the folder, then
  \<open> Project: test-python\<close>, each followed by the newline. In every run they come first and
  the events after them are a run of the loop; and no pass of the loop writes either
  of them. So what the script writes to the standard output stream starts with two
  lines that belong to no pass.
\<close>

theorem startup_banner:
  "program 0 =
     [([Write Stdout
          ([CHR 0xF0, CHR 0x9F, CHR 0x90, CHR 0x8D] @ '' Starting Python application...''
              @ [CHR 0x0A]),
        Write Stdout
          ([CHR 0xF0, CHR 0x9F, CHR 0x93, CHR 0x81] @ '' Project: test-python'' @ [CHR 0x0A])],
       Looping, \<lparr>count = 0\<rparr>)]
   \<and> (\<forall>(es, r) \<in> set (program fuel).
        \<exists>rest. es =
           Write Stdout
          ([CHR 0xF0, CHR 0x9F, CHR 0x90, CHR 0x8D] @ '' Starting Python application...''
              @ [CHR 0x0A])
           # Write Stdout
          ([CHR 0xF0, CHR 0x9F, CHR 0x93, CHR 0x81] @ '' Project: test-python'' @ [CHR 0x0A])
           # rest
          \<and> (rest, r) \<in> set (while_True fuel init)
          \<and> written es =
           (Stdout,
          [CHR 0xF0, CHR 0x9F, CHR 0x90, CHR 0x8D] @ '' Starting Python application...''
              @ [CHR 0x0A])
           # (Stdout,
          [CHR 0xF0, CHR 0x9F, CHR 0x93, CHR 0x81] @ '' Project: test-python'' @ [CHR 0x0A])
           # written rest)
   \<and> (\<forall>(es, s') \<in> set (loop_body s).
        (Stdout,
          [CHR 0xF0, CHR 0x9F, CHR 0x90, CHR 0x8D] @ '' Starting Python application...''
              @ [CHR 0x0A]) \<notin> set (written es)
        \<and> (Stdout,
          [CHR 0xF0, CHR 0x9F, CHR 0x93, CHR 0x81] @ '' Project: test-python'' @ [CHR 0x0A]) \<notin> set (written es))"
proof (intro conjI)
  show "program 0 =
     [([Write Stdout
          ([CHR 0xF0, CHR 0x9F, CHR 0x90, CHR 0x8D] @ '' Starting Python application...''
              @ [CHR 0x0A]),
        Write Stdout
          ([CHR 0xF0, CHR 0x9F, CHR 0x93, CHR 0x81] @ '' Project: test-python'' @ [CHR 0x0A])],
       Looping, \<lparr>count = 0\<rparr>)]"
    by (simp add: program_def print_def init_def banner_start_def banner_project_def newline_def)
next
  show "\<forall>(es, r) \<in> set (program fuel).
        \<exists>rest. es =
           Write Stdout
          ([CHR 0xF0, CHR 0x9F, CHR 0x90, CHR 0x8D] @ '' Starting Python application...''
              @ [CHR 0x0A])
           # Write Stdout
          ([CHR 0xF0, CHR 0x9F, CHR 0x93, CHR 0x81] @ '' Project: test-python'' @ [CHR 0x0A])
           # rest
          \<and> (rest, r) \<in> set (while_True fuel init)
          \<and> written es =
           (Stdout,
          [CHR 0xF0, CHR 0x9F, CHR 0x90, CHR 0x8D] @ '' Starting Python application...''
              @ [CHR 0x0A])
           # (Stdout,
          [CHR 0xF0, CHR 0x9F, CHR 0x93, CHR 0x81] @ '' Project: test-python'' @ [CHR 0x0A])
           # written rest"
    by (auto simp: program_def print_def banner_start_def banner_project_def newline_def)
next
  have "(Stdout,
          [CHR 0xF0, CHR 0x9F, CHR 0x90, CHR 0x8D] @ '' Starting Python application...''
              @ [CHR 0x0A]) \<notin> set (written es)
        \<and> (Stdout,
          [CHR 0xF0, CHR 0x9F, CHR 0x93, CHR 0x81] @ '' Project: test-python'' @ [CHR 0x0A]) \<notin> set (written es)"
    if "(es, s') \<in> set (loop_body s)" for es s'
    using banner_not_in_pass [OF that]
    by (simp add: banner_start_def banner_project_def newline_def)
  then show "\<forall>(es, s') \<in> set (loop_body s).
        (Stdout,
          [CHR 0xF0, CHR 0x9F, CHR 0x90, CHR 0x8D] @ '' Starting Python application...''
              @ [CHR 0x0A]) \<notin> set (written es)
        \<and> (Stdout,
          [CHR 0xF0, CHR 0x9F, CHR 0x93, CHR 0x81] @ '' Project: test-python'' @ [CHR 0x0A]) \<notin> set (written es)"
    by blast
qed

text \<open>An instance: the run of two passes.\<close>

theorem startup_banner_witness:
  "([Write Stdout
          ([CHR 0xF0, CHR 0x9F, CHR 0x90, CHR 0x8D] @ '' Starting Python application...''
              @ [CHR 0x0A]),
     Write Stdout
          ([CHR 0xF0, CHR 0x9F, CHR 0x93, CHR 0x81] @ '' Project: test-python'' @ [CHR 0x0A]),
     Write Stdout (''[INFO] Application running - iteration 1'' @ [newline]), Sleep 3,
     Write Stdout (''[INFO] Application running - iteration 2'' @ [newline]), Sleep 3],
    Looping, \<lparr>count = 2\<rparr>) \<in> set (program (Suc (Suc 0)))
   \<and> (\<exists>rest.
        [Write Stdout
          ([CHR 0xF0, CHR 0x9F, CHR 0x90, CHR 0x8D] @ '' Starting Python application...''
              @ [CHR 0x0A]),
         Write Stdout
          ([CHR 0xF0, CHR 0x9F, CHR 0x93, CHR 0x81] @ '' Project: test-python'' @ [CHR 0x0A]),
         Write Stdout (''[INFO] Application running - iteration 1'' @ [newline]), Sleep 3,
     Write Stdout (''[INFO] Application running - iteration 2'' @ [newline]), Sleep 3]
          = Write Stdout
          ([CHR 0xF0, CHR 0x9F, CHR 0x90, CHR 0x8D] @ '' Starting Python application...''
              @ [CHR 0x0A])
            # Write Stdout
          ([CHR 0xF0, CHR 0x9F, CHR 0x93, CHR 0x81] @ '' Project: test-python'' @ [CHR 0x0A])
            # rest
        \<and> (rest, Looping, \<lparr>count = 2\<rparr>) \<in> set (while_True (Suc (Suc 0)) init))"
proof -
  have h: "([Write Stdout
          ([CHR 0xF0, CHR 0x9F, CHR 0x90, CHR 0x8D] @ '' Starting Python application...''
              @ [CHR 0x0A]),
     Write Stdout
          ([CHR 0xF0, CHR 0x9F, CHR 0x93, CHR 0x81] @ '' Project: test-python'' @ [CHR 0x0A]),
     Write Stdout (''[INFO] Application running - iteration 1'' @ [newline]), Sleep 3,
     Write Stdout (''[INFO] Application running - iteration 2'' @ [newline]), Sleep 3],
    Looping, \<lparr>count = 2\<rparr>) \<in> set (program (Suc (Suc 0)))"
    unfolding program_def while_True_2_init
    by (simp add: print_def banner_start_def banner_project_def newline_def)
  have "\<forall>(es, r) \<in> set (program (Suc (Suc 0))).
        \<exists>rest. es =
           Write Stdout
          ([CHR 0xF0, CHR 0x9F, CHR 0x90, CHR 0x8D] @ '' Starting Python application...''
              @ [CHR 0x0A])
           # Write Stdout
          ([CHR 0xF0, CHR 0x9F, CHR 0x93, CHR 0x81] @ '' Project: test-python'' @ [CHR 0x0A])
           # rest
          \<and> (rest, r) \<in> set (while_True (Suc (Suc 0)) init)
          \<and> written es =
           (Stdout,
          [CHR 0xF0, CHR 0x9F, CHR 0x90, CHR 0x8D] @ '' Starting Python application...''
              @ [CHR 0x0A])
           # (Stdout,
          [CHR 0xF0, CHR 0x9F, CHR 0x93, CHR 0x81] @ '' Project: test-python'' @ [CHR 0x0A])
           # written rest"
    using startup_banner [of "Suc (Suc 0)"] by (rule conjunct2 [THEN conjunct1])
  with h show ?thesis by blast
qed

end
